theory Spec2Isabelle
  imports Main "HOL-Library.Sublist"
begin

section \<open>The content script of the browser extension (app/scripts/contentscript.js)\<close>

text \<open>
  The script decides whether the provider is injected into the current document
  (\<open>shouldInjectProvider\<close> and its four checks), and when it is, sets up the streams
  between the page and the extension (\<open>setupStreams\<close>).

  Strings are lists of characters. The components of \<open>window.location\<close> are ASCII
  (the browser serialises a URL so), and a \<open>char\<close> stands for a code unit below 256.
\<close>

subsection \<open>Regular expressions, as far as the script uses them\<close>

text \<open>
  The script uses the literals \<open>/\.xml$/\<close> and \<open>/\.pdf$/\<close> and, for every deny-list
  entry, \<open>new RegExp(`(?:https?:\\/\\/)(?:(?!${blacklistedDomain}).)*$`)\<close>. These need:
  a literal character, the dot (any character but a line terminator), the end of input
  (\<open>$\<close> without the \<open>m\<close> flag), sequence, the greedy \<open>?\<close> and \<open>*\<close>, and the negative
  lookahead \<open>(?!r)\<close>. A non-capturing group \<open>(?:r)\<close> is \<open>r\<close> itself.
\<close>

datatype regex =
    Eps
  | Chr char
  | Dot
  | Eol
  | Seq regex regex
  | Opt regex
  | Star regex
  | NegLook regex

text \<open>Line terminators of ECMAScript among the code units below 256: LF and CR.\<close>

definition line_terminator :: "char \<Rightarrow> bool" where
  "line_terminator c \<longleftrightarrow> c = CHR 0x0A \<or> c = CHR 0x0D"

text \<open>
  \<open>rmatch r s\<close> is the backtracking matcher at the start of \<open>s\<close>: the list of what is left
  of \<open>s\<close> after each way \<open>r\<close> can match there, in the order the matcher tries them
  (greedy first). The empty list is failure. An iteration of \<open>*\<close> that consumes nothing
  is not repeated, as in ECMAScript.
\<close>

fun rmatch :: "regex \<Rightarrow> string \<Rightarrow> string list" where
  "rmatch Eps s = [s]"
| "rmatch (Chr c) s = (case s of [] \<Rightarrow> [] | x # xs \<Rightarrow> if x = c then [xs] else [])"
| "rmatch Dot s = (case s of [] \<Rightarrow> [] | x # xs \<Rightarrow> if line_terminator x then [] else [xs])"
| "rmatch Eol s = (if s = [] then [s] else [])"
| "rmatch (Seq a b) s = concat (map (rmatch b) (rmatch a s))"
| "rmatch (Opt a) s = rmatch a s @ [s]"
| "rmatch (Star a) s =
     concat (map (\<lambda>t. if length t < length s then rmatch (Star a) t else []) (rmatch a s)) @ [s]"
| "rmatch (NegLook a) s = (if rmatch a s = [] then [s] else [])"

text \<open>
  \<open>RegExp.prototype.test\<close> of a regular expression without the \<open>g\<close> and \<open>y\<close> flags: a
  match may start at any index of the string, the end included.
\<close>

fun regex_test :: "regex \<Rightarrow> string \<Rightarrow> bool" where
  "regex_test r [] = (rmatch r [] \<noteq> [])"
| "regex_test r (x # xs) = (rmatch r (x # xs) \<noteq> [] \<or> regex_test r xs)"

text \<open>A run of literal characters.\<close>

fun lit :: "string \<Rightarrow> regex" where
  "lit [] = Eps"
| "lit (c # cs) = Seq (Chr c) (lit cs)"

subsection \<open>The deny-list check: \<open>blacklistedDomainCheck\<close>\<close>

definition blacklistedDomains :: "string list" where
  "blacklistedDomains =
    [''uscourts.gov'',
     ''dropbox.com'',
     ''webbyawards.com'',
     ''cdn.shopify.com/s/javascripts/tricorder/xtld-read-only-frame.html'',
     ''adyen.com'',
     ''gravityforms.com'',
     ''harbourair.com'',
     ''ani.gamer.com.tw'',
     ''blueskybooking.com'',
     ''sharefile.com'']"

text \<open>
  \<open>blacklistedDomains[i].replace('.', '\\.')\<close>: with a string as its pattern,
  \<open>String.prototype.replace\<close> replaces the first occurrence only. The replacement is a
  backslash (code unit 0x5C) and a dot.
\<close>

fun replace_first_dot :: "string \<Rightarrow> string" where
  "replace_first_dot [] = []"
| "replace_first_dot (c # cs) =
     (if c = CHR ''.'' then CHR 0x5C # CHR ''.'' # cs else c # replace_first_dot cs)"

text \<open>
  The text of an entry as the \<open>RegExp\<close> constructor reads it inside the lookahead: a
  backslash makes the next character a literal, a dot that is not escaped is the
  wildcard, every other character of the entries (letters, \<open>/\<close>, \<open>-\<close>) is a literal.
\<close>

fun parse_atoms :: "string \<Rightarrow> regex" where
  "parse_atoms [] = Eps"
| "parse_atoms [c] = Seq (if c = CHR ''.'' then Dot else Chr c) Eps"
| "parse_atoms (c # d # cs) =
     (if c = CHR 0x5C then Seq (Chr d) (parse_atoms cs)
      else Seq (if c = CHR ''.'' then Dot else Chr c) (parse_atoms (d # cs)))"

text \<open>The prefix \<open>(?:https?:\/\/)\<close> of the pattern.\<close>

definition scheme_regex :: regex where
  "scheme_regex = Seq (lit ''http'') (Seq (Opt (Chr CHR ''s'')) (lit ''://''))"

text \<open>\<open>new RegExp(`(?:https?:\\/\\/)(?:(?!${blacklistedDomain}).)*$`)\<close>\<close>

definition domain_regex :: "string \<Rightarrow> regex" where
  "domain_regex blacklistedDomain =
     Seq scheme_regex
       (Seq (Star (Seq (NegLook (parse_atoms (replace_first_dot blacklistedDomain))) Dot)) Eol)"

text \<open>
  The loop of \<open>blacklistedDomainCheck\<close> over the entries from index 0: it returns
  \<open>true\<close> at the first entry whose regular expression does not match the URL, and
  \<open>false\<close> after the last entry.
\<close>

fun blacklist_loop :: "string list \<Rightarrow> string \<Rightarrow> bool" where
  "blacklist_loop [] currentUrl = False"
| "blacklist_loop (d # ds) currentUrl =
     (if \<not> regex_test (domain_regex d) currentUrl then True else blacklist_loop ds currentUrl)"

text \<open>\<open>currentUrl\<close> is \<open>window.location.href\<close>.\<close>

definition blacklistedDomainCheck :: "string \<Rightarrow> bool" where
  "blacklistedDomainCheck currentUrl = blacklist_loop blacklistedDomains currentUrl"

text \<open>
  Notions for stating what the check computes. \<open>scheme_rests href\<close> are the texts that
  follow an occurrence of \<open>http://\<close> or \<open>https://\<close> in \<open>href\<close>. A text is an instance of
  an entry when it agrees with the entry up to and including the entry's first dot and,
  after that, character by character, a later dot of the entry standing for any
  character but a line terminator. An entry hits a text when the text contains an
  instance of the entry, or a line terminator.
\<close>

definition scheme_rests :: "string \<Rightarrow> string set" where
  "scheme_rests href =
     {rest. \<exists>pre. href = pre @ ''http://'' @ rest \<or> href = pre @ ''https://'' @ rest}"

fun wildcard_match :: "string \<Rightarrow> string \<Rightarrow> bool" where
  "wildcard_match [] m = (m = [])"
| "wildcard_match (c # cs) m =
     (case m of [] \<Rightarrow> False
      | x # xs \<Rightarrow> (if c = CHR ''.'' then \<not> line_terminator x else x = c) \<and> wildcard_match cs xs)"

fun entry_match :: "string \<Rightarrow> string \<Rightarrow> bool" where
  "entry_match [] m = (m = [])"
| "entry_match (c # cs) m =
     (case m of [] \<Rightarrow> False
      | x # xs \<Rightarrow> x = c \<and> (if c = CHR ''.'' then wildcard_match cs xs else entry_match cs xs))"

definition entry_hit :: "string \<Rightarrow> string \<Rightarrow> bool" where
  "entry_hit d rest \<longleftrightarrow>
     (\<exists>c \<in> set rest. line_terminator c) \<or> (\<exists>m. sublist m rest \<and> entry_match d m)"

subsection \<open>The document and its location\<close>

text \<open>
  \<open>window.location\<close>, as far as the script reads it. The browser computes the three
  components; \<open>pathname\<close> has neither the query string nor the fragment.
\<close>

record location =
  href :: string
  pathname :: string
  hostname :: string

text \<open>
  \<open>window.document\<close>, as far as the script reads it: \<open>doctype\<close> is the \<open>name\<close> of
  \<open>document.doctype\<close> and \<open>documentElement\<close> the \<open>nodeName\<close> of
  \<open>document.documentElement\<close>; each is \<open>None\<close> when the node is \<open>null\<close> (a document
  without a document type declaration, a document without a top-level element).
\<close>

record document =
  doctype :: "string option"
  documentElement :: "string option"

text \<open>Values of messages: what the structured clone of a message can hold.\<close>

datatype jsval =
    JUndefined
  | JNull
  | JBool bool
  | JNum int
  | JStr string
  | JArr "jsval list"
  | JObj "(string \<times> jsval) list"

text \<open>
  The errors the script raises or passes on: \<open>TypeError\<close> is raised by reading a property
  of \<open>null\<close> or \<open>undefined\<close>; the next two are \<open>new Error('Malformed onboarding message')\<close>
  and \<open>new Error(`Unrecognized onboarding message type: '${chunk.type}'`)\<close>, the latter
  with the value of \<open>chunk.type\<close>; \<open>RuntimeError\<close> is an error of the extension runtime;
  \<open>SubstreamExists\<close> and \<open>NoMultiplexer\<close> are the failures of creating a channel.
\<close>

datatype js_error =
    TypeError
  | MalformedOnboardingMessage
  | UnrecognizedOnboardingMessageType jsval
  | RuntimeError string
  | SubstreamExists string
  | NoMultiplexer

subsection \<open>The checks of \<open>shouldInjectProvider\<close>\<close>

definition doctypeCheck :: "document \<Rightarrow> bool" where
  "doctypeCheck doc =
     (case doctype doc of
        Some name \<Rightarrow> name = ''html''
      | None \<Rightarrow> True)"

text \<open>\<open>prohibitedTypes = [/\.xml$/, /\.pdf$/]\<close> and the loop of \<open>suffixCheck\<close> over it.\<close>

definition prohibitedTypes :: "regex list" where
  "prohibitedTypes = [Seq (lit ''.xml'') Eol, Seq (lit ''.pdf'') Eol]"

fun suffix_loop :: "regex list \<Rightarrow> string \<Rightarrow> bool" where
  "suffix_loop [] currentUrl = True"
| "suffix_loop (r # rs) currentUrl =
     (if regex_test r currentUrl then False else suffix_loop rs currentUrl)"

definition suffixCheck :: "location \<Rightarrow> bool" where
  "suffixCheck loc = suffix_loop prohibitedTypes (pathname loc)"

text \<open>
  \<open>String.prototype.toLowerCase\<close> on code units below 256: the ASCII capitals and the
  Latin-1 capitals (0xC0 to 0xDE but the multiplication sign 0xD7) move up by 32.
\<close>

definition toLowerCase_char :: "char \<Rightarrow> char" where
  "toLowerCase_char c =
     (let n = (of_char c :: nat)
      in if (65 \<le> n \<and> n \<le> 90) \<or> (192 \<le> n \<and> n \<le> 222 \<and> n \<noteq> 215)
         then char_of (n + 32) else c)"

definition toLowerCase :: "string \<Rightarrow> string" where
  "toLowerCase s = map toLowerCase_char s"

text \<open>
  \<open>documentElementCheck\<close> reads \<open>document.documentElement.nodeName\<close> first, which raises
  a \<open>TypeError\<close> when \<open>document.documentElement\<close> is \<open>null\<close>. The test
  \<open>if (documentElement)\<close> is on the node name: the empty string is falsy.
\<close>

definition documentElementCheck :: "document \<Rightarrow> js_error + bool" where
  "documentElementCheck doc =
     (case documentElement doc of
        None \<Rightarrow> Inl TypeError
      | Some nodeName \<Rightarrow>
          Inr (if nodeName \<noteq> [] then toLowerCase nodeName = ''html'' else True))"

text \<open>
  \<open>doctypeCheck() && suffixCheck() && documentElementCheck() && !blacklistedDomainCheck()\<close>:
  \<open>&&\<close> evaluates its right operand only when the left one is true.
\<close>

definition shouldInjectProvider :: "document \<Rightarrow> location \<Rightarrow> js_error + bool" where
  "shouldInjectProvider doc loc =
     (if \<not> doctypeCheck doc then Inr False
      else if \<not> suffixCheck loc then Inr False
      else (case documentElementCheck doc of
              Inl e \<Rightarrow> Inl e
            | Inr b \<Rightarrow>
                if \<not> b then Inr False
                else Inr (\<not> blacklistedDomainCheck (href loc))))"

text \<open>
  The top level of the script: \<open>if (shouldInjectProvider()) { injectScript(inpageBundle);
  start() }\<close>. An error raised by the condition ends the script.
\<close>

datatype action = InjectScript | Start

definition contentscript :: "document \<Rightarrow> location \<Rightarrow> js_error + action list" where
  "contentscript doc loc =
     (case shouldInjectProvider doc loc of
        Inl e \<Rightarrow> Inl e
      | Inr b \<Rightarrow> Inr (if b then [InjectScript, Start] else []))"

subsection \<open>The redirect to the phishing warning: \<open>redirectToPhishingWarning\<close>\<close>

text \<open>
  Modelled from the spec: \<open>querystring.stringify\<close> (the \<open>querystring\<close> module is absent
  from the sources), by which the redirect target "encodes \<open>hostname\<close> and \<open>href\<close> as
  query parameters". Its \<open>escape\<close> is \<open>encodeURIComponent\<close>: the letters, the digits and
  \<open>- _ . ! ~ * ' ( )\<close> stand for themselves, every other character is written as the bytes
  of its UTF-8 encoding, each as \<open>%\<close> and two capital hexadecimal digits. A code unit
  from 128 to 255 has two bytes.
\<close>

definition unreserved :: "char \<Rightarrow> bool" where
  "unreserved c \<longleftrightarrow>
     (let n = (of_char c :: nat)
      in (48 \<le> n \<and> n \<le> 57) \<or> (65 \<le> n \<and> n \<le> 90) \<or> (97 \<le> n \<and> n \<le> 122)
         \<or> c \<in> set ''-_.!~*()'' \<or> n = 39)"

definition hex_digit :: "nat \<Rightarrow> char" where
  "hex_digit n = (if n < 10 then char_of (48 + n) else char_of (55 + n))"

definition percent :: "nat \<Rightarrow> string" where
  "percent b = [CHR ''%'', hex_digit (b div 16), hex_digit (b mod 16)]"

definition utf8 :: "char \<Rightarrow> nat list" where
  "utf8 c =
     (let n = (of_char c :: nat)
      in if n < 128 then [n] else [192 + n div 64, 128 + n mod 64])"

definition escape_char :: "char \<Rightarrow> string" where
  "escape_char c = (if unreserved c then [c] else concat (map percent (utf8 c)))"

definition escape :: "string \<Rightarrow> string" where
  "escape s = concat (map escape_char s)"

text \<open>
  \<open>stringify\<close> of an object whose values are strings: \<open>key=value\<close> for every property in
  the order of the object, both escaped, joined by \<open>&\<close>.
\<close>

fun join_amp :: "string list \<Rightarrow> string" where
  "join_amp [] = []"
| "join_amp [x] = x"
| "join_amp (x # y # ys) = x @ CHR ''&'' # join_amp (y # ys)"

definition stringify :: "(string \<times> string) list \<Rightarrow> string" where
  "stringify obj = join_amp (map (\<lambda>(k, v). escape k @ CHR ''='' # escape v) obj)"

text \<open>
  The value assigned to \<open>window.location.href\<close>. \<open>getURL\<close> is
  \<open>extension.runtime.getURL\<close>, which gives the URL of a file of the extension.
\<close>

definition redirectToPhishingWarning :: "(string \<Rightarrow> string) \<Rightarrow> location \<Rightarrow> string" where
  "redirectToPhishingWarning getURL loc =
     (let extensionURL = getURL ''phishing.html''
      in extensionURL @ CHR ''#'' #
         stringify [(''hostname'', hostname loc), (''href'', href loc)])"

text \<open>
  Reading a query string back: the inverse of \<open>stringify\<close>, by which the theorems say
  what the redirect target holds. \<open>unescape\<close> turns every \<open>%XY\<close> into its byte and decodes
  the bytes as UTF-8 of code units below 256.
\<close>

definition hex_value :: "char \<Rightarrow> nat option" where
  "hex_value c =
     (let n = (of_char c :: nat)
      in if 48 \<le> n \<and> n \<le> 57 then Some (n - 48)
         else if 65 \<le> n \<and> n \<le> 70 then Some (n - 55)
         else None)"

fun percent_decode :: "string \<Rightarrow> nat list" where
  "percent_decode [] = []"
| "percent_decode (c # cs) =
     (if c = CHR ''%'' then
        (case cs of
           h # l # rest \<Rightarrow>
             (case (hex_value h, hex_value l) of
                (Some a, Some b) \<Rightarrow> (16 * a + b) # percent_decode rest
              | _ \<Rightarrow> of_char c # percent_decode cs)
         | _ \<Rightarrow> of_char c # percent_decode cs)
      else of_char c # percent_decode cs)"

fun utf8_decode :: "nat list \<Rightarrow> string" where
  "utf8_decode [] = []"
| "utf8_decode [b] = [char_of b]"
| "utf8_decode (b # b' # bs) =
     (if 192 \<le> b \<and> b < 196 \<and> 128 \<le> b' \<and> b' < 192
      then char_of ((b - 192) * 64 + (b' - 128)) # utf8_decode bs
      else char_of b # utf8_decode (b' # bs))"

definition unescape :: "string \<Rightarrow> string" where
  "unescape s = utf8_decode (percent_decode s)"

fun split_at :: "char \<Rightarrow> string \<Rightarrow> string list" where
  "split_at sep [] = [[]]"
| "split_at sep (c # cs) =
     (if c = sep then [] # split_at sep cs
      else (case split_at sep cs of [] \<Rightarrow> [[c]] | w # ws \<Rightarrow> (c # w) # ws))"

definition parse_pair :: "string \<Rightarrow> string \<times> string" where
  "parse_pair kv =
     (unescape (takeWhile (\<lambda>c. c \<noteq> CHR ''='') kv),
      unescape (drop 1 (dropWhile (\<lambda>c. c \<noteq> CHR ''='') kv)))"

definition parse_query :: "string \<Rightarrow> (string \<times> string) list" where
  "parse_query qs = map parse_pair (split_at CHR ''&'' qs)"

subsection \<open>The onboarding sink: the \<open>write\<close> function of \<open>addCurrentTab\<close>\<close>








subsection \<open>Setting up the streams: \<open>setupStreams\<close>\<close>

datatype mux = PageMux | ExtensionMux

text \<open>
  The streams of the script: the two transports, the two multiplexers, a channel of a
  multiplexer (\<open>mux.createStream(name)\<close>) and the \<open>Writable\<close> of the onboarding sink.
\<close>

datatype stream =
    PageStream
  | ExtensionStream
  | Mux mux
  | Channel mux string
  | AddCurrentTab

text \<open>
  The last argument of a \<open>pump\<close> call: \<open>(err) => logStreamDisconnectWarning(label, err)\<close>,
  or \<open>error => console.error('MetaMask onboarding channel traffic failed', error)\<close>.
\<close>

datatype callback =
    LogStreamDisconnectWarning string
  | LogOnboardingFailure

datatype listener = RedirectToPhishingWarning

datatype op =
    NewLocalMessageDuplexStream string string
  | RuntimeConnect string
  | NewPortStream
  | NewObjectMultiplex mux
  | SetMaxListeners mux nat
  | Pump "stream list" callback
  | CreateStream mux string
  | NewWritable
  | Once stream string listener

text \<open>
  The state that \<open>setupStreams\<close> builds: the multiplexers created so far, each with the
  names of its channels; the pipelines; the listeners registered with \<open>once\<close>; and the
  calls made so far, in order.
\<close>

record bridge =
  channels :: "(mux \<times> string list) list"
  pipes :: "(stream list \<times> callback) list"
  once_listeners :: "(stream \<times> string \<times> listener) list"
  trace :: "op list"

definition fresh :: bridge where
  "fresh = \<lparr>channels = [], pipes = [], once_listeners = [], trace = []\<rparr>"

definition call :: "op \<Rightarrow> bridge \<Rightarrow> js_error + bridge" where
  "call x b = Inr (b\<lparr>trace := trace b @ [x]\<rparr>)"

definition newObjectMultiplex :: "mux \<Rightarrow> bridge \<Rightarrow> js_error + bridge" where
  "newObjectMultiplex m b =
     Inr (b\<lparr>channels := channels b @ [(m, [])], trace := trace b @ [NewObjectMultiplex m]\<rparr>)"

text \<open>
  Modelled from the spec: \<open>createStream\<close> of the multiplexer (the \<open>obj-multiplex\<close> library
  is absent from the sources). It "registers a new logical channel" and "fails
  (configuration error, fatal at setup time) if \<open>name\<close> is reused within the same
  Multiplexer instance". A multiplexer that was not created has no channels to add to.
\<close>

definition createStream :: "mux \<Rightarrow> string \<Rightarrow> bridge \<Rightarrow> js_error + bridge" where
  "createStream m name b =
     (case map_of (channels b) m of
        None \<Rightarrow> Inl NoMultiplexer
      | Some names \<Rightarrow>
          if name \<in> set names then Inl (SubstreamExists name)
          else Inr (b\<lparr>channels :=
                         map (\<lambda>(m', ns). if m' = m then (m', ns @ [name]) else (m', ns)) (channels b),
                       trace := trace b @ [CreateStream m name]\<rparr>))"

definition pump :: "stream list \<Rightarrow> callback \<Rightarrow> bridge \<Rightarrow> js_error + bridge" where
  "pump streams cb b =
     Inr (b\<lparr>pipes := pipes b @ [(streams, cb)], trace := trace b @ [Pump streams cb]\<rparr>)"

definition once :: "stream \<Rightarrow> string \<Rightarrow> listener \<Rightarrow> bridge \<Rightarrow> js_error + bridge" where
  "once s event l b =
     Inr (b\<lparr>once_listeners := once_listeners b @ [(s, event, l)],
            trace := trace b @ [Once s event l]\<rparr>)"

text \<open>Statements in sequence: an error raised by one ends the function.\<close>

fun run_steps :: "(bridge \<Rightarrow> js_error + bridge) list \<Rightarrow> bridge \<Rightarrow> js_error + bridge" where
  "run_steps [] b = Inr b"
| "run_steps (f # fs) b = (case f b of Inl e \<Rightarrow> Inl e | Inr b' \<Rightarrow> run_steps fs b')"

text \<open>\<open>`MetaMask muxed traffic for channel "${channelName}" failed.`\<close>\<close>

definition muxed_traffic_label :: "string \<Rightarrow> string" where
  "muxed_traffic_label channelName =
     ''MetaMask muxed traffic for channel '' @ [CHR 0x22] @ channelName @ [CHR 0x22]
       @ '' failed.''"

definition forwardTrafficBetweenMuxers ::
    "string \<Rightarrow> mux \<Rightarrow> mux \<Rightarrow> bridge \<Rightarrow> js_error + bridge" where
  "forwardTrafficBetweenMuxers channelName muxA muxB =
     run_steps
       [createStream muxA channelName,
        createStream muxB channelName,
        pump [Channel muxA channelName, Channel muxB channelName, Channel muxA channelName]
          (LogStreamDisconnectWarning (muxed_traffic_label channelName))]"

definition setupStreams :: "js_error + bridge" where
  "setupStreams =
     run_steps
       [call (NewLocalMessageDuplexStream ''contentscript'' ''inpage''),
        call (RuntimeConnect ''contentscript''),
        call NewPortStream,
        newObjectMultiplex PageMux,
        call (SetMaxListeners PageMux 25),
        newObjectMultiplex ExtensionMux,
        call (SetMaxListeners ExtensionMux 25),
        pump [Mux PageMux, PageStream, Mux PageMux]
          (LogStreamDisconnectWarning ''MetaMask Inpage Multiplex''),
        pump [Mux ExtensionMux, ExtensionStream, Mux ExtensionMux]
          (LogStreamDisconnectWarning ''MetaMask Background Multiplex''),
        createStream PageMux ''onboarding'',
        call NewWritable,
        pump [Channel PageMux ''onboarding'', AddCurrentTab] LogOnboardingFailure,
        forwardTrafficBetweenMuxers ''provider'' PageMux ExtensionMux,
        forwardTrafficBetweenMuxers ''publicConfig'' PageMux ExtensionMux,
        forwardTrafficBetweenMuxers ''cap'' PageMux ExtensionMux,
        createStream ExtensionMux ''phishing'',
        once (Channel ExtensionMux ''phishing'') ''data'' RedirectToPhishingWarning]
       fresh"

text \<open>
  \<open>logStreamDisconnectWarning(remoteLabel, err)\<close>: the text given to \<open>console.warn\<close>;
  \<open>err\<close> is \<open>None\<close> when falsy, else its \<open>stack\<close>.
\<close>

definition logStreamDisconnectWarning :: "string \<Rightarrow> string option \<Rightarrow> string" where
  "logStreamDisconnectWarning remoteLabel err =
     (let warningMsg = ''MetamaskContentscript - lost connection to '' @ remoteLabel
      in case err of
           Some stack \<Rightarrow> warningMsg @ CHR 0x0A # stack
         | None \<Rightarrow> warningMsg)"

text \<open>\<open>a\<close> comes before \<open>b\<close> in a list of calls.\<close>

definition precedes :: "op \<Rightarrow> op \<Rightarrow> op list \<Rightarrow> bool" where
  "precedes a b xs \<longleftrightarrow> a \<in> set (takeWhile (\<lambda>x. x \<noteq> b) xs) \<and> b \<in> set xs"

subsection \<open>Messages on the phishing channel\<close>

text \<open>
  What the page context holds while messages arrive: the listeners still registered,
  the calls of listeners made so far with their argument, the lines of \<open>console.log\<close>
  and the values assigned to \<open>window.location.href\<close>.
\<close>

record runtime =
  listeners :: "(stream \<times> string \<times> listener) list"
  calls :: "(listener \<times> jsval) list"
  console_log :: "string list"
  assigned_href :: "string list"

definition runtime_of :: "bridge \<Rightarrow> runtime" where
  "runtime_of b =
     \<lparr>listeners = once_listeners b, calls = [], console_log = [], assigned_href = []\<rparr>"

text \<open>
  A call of a listener. \<open>redirectToPhishingWarning\<close> writes one line to the console and
  assigns the redirect target to \<open>window.location.href\<close>; it ignores its argument.
\<close>

fun invoke ::
    "(string \<Rightarrow> string) \<Rightarrow> location \<Rightarrow> jsval \<Rightarrow> listener \<Rightarrow> runtime \<Rightarrow> runtime" where
  "invoke getURL loc payload RedirectToPhishingWarning r =
     r\<lparr>calls := calls r @ [(RedirectToPhishingWarning, payload)],
       console_log := console_log r @ [''MetaMask - routing to Phishing Warning component''],
       assigned_href := assigned_href r @ [redirectToPhishingWarning getURL loc]\<rparr>"

text \<open>
  Modelled from the spec: the subscription that \<open>once\<close> makes (the event emitter of the
  stream library is absent from the sources). The sink "consumes exactly the first
  incoming message, then detaches (further messages on that channel are ignored)": an
  event removes the listeners registered for it with \<open>once\<close> and calls each with the
  payload.
\<close>

definition emit ::
    "(string \<Rightarrow> string) \<Rightarrow> location \<Rightarrow> stream \<Rightarrow> string \<Rightarrow> jsval \<Rightarrow> runtime \<Rightarrow> runtime" where
  "emit getURL loc s event payload r =
     (let hit = filter (\<lambda>(s', event', l). s' = s \<and> event' = event) (listeners r);
          rest = filter (\<lambda>(s', event', l). \<not> (s' = s \<and> event' = event)) (listeners r)
      in fold (\<lambda>(s', event', l). invoke getURL loc payload l) hit (r\<lparr>listeners := rest\<rparr>))"

text \<open>Messages arriving one after the other on a channel: a \<open>data\<close> event each.\<close>

fun receive ::
    "(string \<Rightarrow> string) \<Rightarrow> location \<Rightarrow> stream \<Rightarrow> jsval list \<Rightarrow> runtime \<Rightarrow> runtime" where
  "receive getURL loc s [] r = r"
| "receive getURL loc s (m # ms) r = receive getURL loc s ms (emit getURL loc s ''data'' m r)"

subsection \<open>A forwarder pairing\<close>

text \<open>
  Modelled from the spec: the pipeline that \<open>pump(channelA, channelB, channelA, callback)\<close>
  makes (the \<open>pump\<close> library is absent from the sources). A pairing relays "every
  frame read from A's channel" to B's channel "and vice versa". "When either channel
  ends (graceful close) or errors, the forwarder ends the other channel the same way and
  reports exactly one terminal event (error or clean close) to a caller-supplied
  handler". A channel that has ended or failed has no further events.
\<close>

datatype channel_state = ChannelOpen | ChannelEnded | ChannelFailed string

datatype side = SideA | SideB

datatype channel_event =
    Frame side jsval
  | ChannelEnds side
  | ChannelErrors side string

record pairing =
  channelA :: channel_state
  channelB :: channel_state
  to_A :: "jsval list"
  to_B :: "jsval list"
  reported :: "string option list"

definition connected :: pairing where
  "connected = \<lparr>channelA = ChannelOpen, channelB = ChannelOpen, to_A = [], to_B = [],
     reported = []\<rparr>"

fun forward :: "pairing \<Rightarrow> channel_event \<Rightarrow> pairing" where
  "forward p (Frame s x) =
     (if channelA p = ChannelOpen \<and> channelB p = ChannelOpen
      then (case s of SideA \<Rightarrow> p\<lparr>to_B := to_B p @ [x]\<rparr> | SideB \<Rightarrow> p\<lparr>to_A := to_A p @ [x]\<rparr>)
      else p)"
| "forward p (ChannelEnds s) =
     (if channelA p = ChannelOpen \<and> channelB p = ChannelOpen
      then p\<lparr>channelA := ChannelEnded, channelB := ChannelEnded, reported := reported p @ [None]\<rparr>
      else p)"
| "forward p (ChannelErrors s e) =
     (if channelA p = ChannelOpen \<and> channelB p = ChannelOpen
      then p\<lparr>channelA := ChannelFailed e, channelB := ChannelFailed e,
             reported := reported p @ [Some e]\<rparr>
      else p)"

fun terminal :: "channel_event \<Rightarrow> bool" where
  "terminal (Frame s x) = False"
| "terminal (ChannelEnds s) = True"
| "terminal (ChannelErrors s e) = True"

text \<open>
  The handler of a forwarder is \<open>(err) => logStreamDisconnectWarning(label, err)\<close>: the
  lines of \<open>console.warn\<close> after the events \<open>evs\<close> on the pairing of a channel.
\<close>

definition forwarder_warnings :: "string \<Rightarrow> channel_event list \<Rightarrow> string list" where
  "forwarder_warnings channelName evs =
     map (logStreamDisconnectWarning (muxed_traffic_label channelName))
       (reported (foldl forward connected evs))"



definition channels_of :: "bridge \<Rightarrow> mux \<Rightarrow> string list" where
  "channels_of b m = (case map_of (channels b) m of Some names \<Rightarrow> names | None \<Rightarrow> [])"

text \<open>The pipelines that a stream is part of.\<close>

definition pipes_with :: "stream \<Rightarrow> bridge \<Rightarrow> (stream list \<times> callback) list" where
  "pipes_with s b = filter (\<lambda>(streams, cb). s \<in> set streams) (pipes b)"

subsection \<open>The onboarding pipeline\<close>






section \<open>Properties\<close>

subsection \<open>The matcher on the patterns of the script\<close>

text \<open>
  \<open>clean D s\<close>: no suffix of \<open>s\<close> but the empty one starts with a match of \<open>D\<close> or with a
  line terminator. It is what \<open>(?:(?!D).)*$\<close> asks of the text it is matched against.
\<close>

fun clean :: "regex \<Rightarrow> string \<Rightarrow> bool" where
  "clean D [] = True"
| "clean D (x # xs) = (rmatch D (x # xs) = [] \<and> \<not> line_terminator x \<and> clean D xs)"

declare rmatch.simps(7) [simp del]

lemma in_rmatch_Seq:
  "t \<in> set (rmatch (Seq a b) s) \<longleftrightarrow> (\<exists>u. u \<in> set (rmatch a s) \<and> t \<in> set (rmatch b u))"
  by auto

lemma in_rmatch_Opt: "t \<in> set (rmatch (Opt a) s) \<longleftrightarrow> t \<in> set (rmatch a s) \<or> t = s"
  by auto

lemma in_rmatch_Chr: "t \<in> set (rmatch (Chr c) s) \<longleftrightarrow> s = c # t"
  by (cases s) auto

lemma in_rmatch_Dot: "t \<in> set (rmatch Dot s) \<longleftrightarrow> (\<exists>x. s = x # t \<and> \<not> line_terminator x)"
  by (cases s) auto

lemma in_rmatch_lit: "t \<in> set (rmatch (lit w) s) \<longleftrightarrow> s = w @ t"
proof (induction w arbitrary: s)
  case Nil
  show ?case by auto
next
  case (Cons c w)
  show ?case
    unfolding lit.simps in_rmatch_Seq in_rmatch_Chr Cons.IH by auto
qed

lemma rmatch_scheme:
  "t \<in> set (rmatch scheme_regex s) \<longleftrightarrow> s = ''http://'' @ t \<or> s = ''https://'' @ t"
  unfolding scheme_regex_def in_rmatch_Seq in_rmatch_Opt in_rmatch_Chr in_rmatch_lit
  by auto

lemma star_Nil: "rmatch (Star (Seq (NegLook D) Dot)) [] = [[]]"
  by (subst rmatch.simps(7)) simp

lemma star_step:
  "rmatch (Star (Seq (NegLook D) Dot)) (x # xs) =
     (if rmatch D (x # xs) = [] \<and> \<not> line_terminator x
      then rmatch (Star (Seq (NegLook D) Dot)) xs @ [x # xs] else [x # xs])"
  by (subst rmatch.simps(7)) simp

lemma rmatch_star_clean:
  "[] \<in> set (rmatch (Star (Seq (NegLook D) Dot)) s) \<longleftrightarrow> clean D s"
  by (induction s) (simp_all add: star_Nil star_step)

lemma rmatch_tail: "rmatch (Seq (Star (Seq (NegLook D) Dot)) Eol) s \<noteq> [] \<longleftrightarrow> clean D s"
proof -
  have "rmatch (Seq (Star (Seq (NegLook D) Dot)) Eol) s \<noteq> [] \<longleftrightarrow>
        [] \<in> set (rmatch (Star (Seq (NegLook D) Dot)) s)"
    by auto
  then show ?thesis by (simp only: rmatch_star_clean)
qed

lemma regex_test_iff: "regex_test r s \<longleftrightarrow> (\<exists>a b. s = a @ b \<and> rmatch r b \<noteq> [])"
proof (induction s)
  case Nil
  show ?case by simp
next
  case (Cons x xs)
  have "(\<exists>a b. x # xs = a @ b \<and> rmatch r b \<noteq> []) \<longleftrightarrow>
        rmatch r (x # xs) \<noteq> [] \<or> (\<exists>a b. xs = a @ b \<and> rmatch r b \<noteq> [])"
    by (auto simp: Cons_eq_append_conv)
  with Cons.IH show ?case by simp
qed

lemma clean_iff:
  "clean D s \<longleftrightarrow>
     (\<forall>c \<in> set s. \<not> line_terminator c) \<and> (\<forall>a b. s = a @ b \<and> b \<noteq> [] \<longrightarrow> rmatch D b = [])"
proof (induction s)
  case Nil
  show ?case by simp
next
  case (Cons x xs)
  have "(\<forall>a b. x # xs = a @ b \<and> b \<noteq> [] \<longrightarrow> rmatch D b = []) \<longleftrightarrow>
        rmatch D (x # xs) = [] \<and> (\<forall>a b. xs = a @ b \<and> b \<noteq> [] \<longrightarrow> rmatch D b = [])"
    by (auto simp: Cons_eq_append_conv)
  with Cons.IH show ?case by auto
qed

subsection \<open>The pattern of a deny-list entry\<close>

lemma parse_atoms_Cons:
  "c \<noteq> CHR 0x5C \<Longrightarrow>
   set (rmatch (parse_atoms (c # p)) s) =
   set (rmatch (Seq (if c = CHR ''.'' then Dot else Chr c) (parse_atoms p)) s)"
  by (cases p) simp_all

lemma in_rmatch_wildcard:
  "CHR 0x5C \<notin> set p \<Longrightarrow>
   t \<in> set (rmatch (parse_atoms p) s) \<longleftrightarrow> (\<exists>m. s = m @ t \<and> wildcard_match p m)"
proof (induction p arbitrary: s)
  case Nil
  show ?case by auto
next
  case (Cons c p)
  then have c: "c \<noteq> CHR 0x5C" and p: "CHR 0x5C \<notin> set p" by auto
  have "t \<in> set (rmatch (parse_atoms (c # p)) s) \<longleftrightarrow>
        (\<exists>u. u \<in> set (rmatch (if c = CHR ''.'' then Dot else Chr c) s) \<and>
             (\<exists>m. u = m @ t \<and> wildcard_match p m))"
    unfolding parse_atoms_Cons [OF c] in_rmatch_Seq Cons.IH [OF p] ..
  also have "\<dots> \<longleftrightarrow> (\<exists>m. s = m @ t \<and> wildcard_match (c # p) m)"
  proof
    assume "\<exists>u. u \<in> set (rmatch (if c = CHR ''.'' then Dot else Chr c) s) \<and>
             (\<exists>m. u = m @ t \<and> wildcard_match p m)"
    then obtain u m where u: "u \<in> set (rmatch (if c = CHR ''.'' then Dot else Chr c) s)"
      and m: "u = m @ t" "wildcard_match p m" by blast
    from u obtain x where x: "s = x # u" "if c = CHR ''.'' then \<not> line_terminator x else x = c"
      by (auto simp: in_rmatch_Dot in_rmatch_Chr split: if_splits)
    with m have "s = (x # m) @ t \<and> wildcard_match (c # p) (x # m)" by simp
    then show "\<exists>m. s = m @ t \<and> wildcard_match (c # p) m" by blast
  next
    assume "\<exists>m. s = m @ t \<and> wildcard_match (c # p) m"
    then obtain m where m: "s = m @ t" "wildcard_match (c # p) m" by blast
    then obtain x m' where m': "m = x # m'" by (cases m) auto
    with m have "m' @ t \<in> set (rmatch (if c = CHR ''.'' then Dot else Chr c) s)"
      and "wildcard_match p m'"
      by (auto simp: in_rmatch_Dot in_rmatch_Chr)
    then show "\<exists>u. u \<in> set (rmatch (if c = CHR ''.'' then Dot else Chr c) s) \<and>
             (\<exists>m. u = m @ t \<and> wildcard_match p m)" by blast
  qed
  finally show ?case .
qed

lemma in_rmatch_entry:
  "CHR 0x5C \<notin> set d \<Longrightarrow>
   t \<in> set (rmatch (parse_atoms (replace_first_dot d)) s) \<longleftrightarrow>
     (\<exists>m. s = m @ t \<and> entry_match d m)"
proof (induction d arbitrary: s)
  case Nil
  show ?case by auto
next
  case (Cons c d)
  then have c: "c \<noteq> CHR 0x5C" and d: "CHR 0x5C \<notin> set d" by auto
  show ?case
  proof (cases "c = CHR ''.''")
    case True
    have "t \<in> set (rmatch (parse_atoms (replace_first_dot (c # d))) s) \<longleftrightarrow>
          (\<exists>u. s = CHR ''.'' # u \<and> (\<exists>m. u = m @ t \<and> wildcard_match d m))"
    proof -
      have "parse_atoms (replace_first_dot (c # d)) = Seq (Chr CHR ''.'') (parse_atoms d)"
        using True by simp
      then show ?thesis
        by (simp only: in_rmatch_Seq in_rmatch_Chr in_rmatch_wildcard [OF d])
    qed
    also have "\<dots> \<longleftrightarrow> (\<exists>m. s = m @ t \<and> entry_match (c # d) m)"
    proof
      assume "\<exists>u. s = CHR ''.'' # u \<and> (\<exists>m. u = m @ t \<and> wildcard_match d m)"
      then obtain m where "s = (CHR ''.'' # m) @ t" "wildcard_match d m" by auto
      then have "s = (CHR ''.'' # m) @ t \<and> entry_match (c # d) (CHR ''.'' # m)"
        using True by simp
      then show "\<exists>m. s = m @ t \<and> entry_match (c # d) m" by blast
    next
      assume "\<exists>m. s = m @ t \<and> entry_match (c # d) m"
      then obtain m where m: "s = m @ t" "entry_match (c # d) m" by blast
      then obtain x m' where "m = x # m'" by (cases m) auto
      with m True show "\<exists>u. s = CHR ''.'' # u \<and> (\<exists>m. u = m @ t \<and> wildcard_match d m)"
        by auto
    qed
    finally show ?thesis .
  next
    case False
    have "set (rmatch (parse_atoms (replace_first_dot (c # d))) s) =
          set (rmatch (Seq (Chr c) (parse_atoms (replace_first_dot d))) s)"
      using False parse_atoms_Cons [OF c, of "replace_first_dot d" s] by simp
    then have "t \<in> set (rmatch (parse_atoms (replace_first_dot (c # d))) s) \<longleftrightarrow>
          (\<exists>u. s = c # u \<and> (\<exists>m. u = m @ t \<and> entry_match d m))"
      by (simp only: in_rmatch_Seq in_rmatch_Chr Cons.IH [OF d])
    also have "\<dots> \<longleftrightarrow> (\<exists>m. s = m @ t \<and> entry_match (c # d) m)"
    proof
      assume "\<exists>u. s = c # u \<and> (\<exists>m. u = m @ t \<and> entry_match d m)"
      then obtain m where "s = (c # m) @ t" "entry_match d m" by auto
      then have "s = (c # m) @ t \<and> entry_match (c # d) (c # m)"
        using False by simp
      then show "\<exists>m. s = m @ t \<and> entry_match (c # d) m" by blast
    next
      assume "\<exists>m. s = m @ t \<and> entry_match (c # d) m"
      then obtain m where m: "s = m @ t" "entry_match (c # d) m" by blast
      then obtain x m' where "m = x # m'" by (cases m) auto
      with m False show "\<exists>u. s = c # u \<and> (\<exists>m. u = m @ t \<and> entry_match d m)"
        by auto
    qed
    finally show ?thesis .
  qed
qed

lemma rmatch_entry_nonempty:
  "CHR 0x5C \<notin> set d \<Longrightarrow>
   rmatch (parse_atoms (replace_first_dot d)) s \<noteq> [] \<longleftrightarrow> (\<exists>m. prefix m s \<and> entry_match d m)"
proof -
  assume d: "CHR 0x5C \<notin> set d"
  have "rmatch (parse_atoms (replace_first_dot d)) s \<noteq> [] \<longleftrightarrow>
        (\<exists>t. t \<in> set (rmatch (parse_atoms (replace_first_dot d)) s))"
    by (cases "rmatch (parse_atoms (replace_first_dot d)) s") auto
  also have "\<dots> \<longleftrightarrow> (\<exists>m. prefix m s \<and> entry_match d m)"
    unfolding in_rmatch_entry [OF d] prefix_def by blast
  finally show ?thesis .
qed

lemma not_clean_entry:
  assumes d: "CHR 0x5C \<notin> set d" and ne: "d \<noteq> []"
  shows "\<not> clean (parse_atoms (replace_first_dot d)) s \<longleftrightarrow> entry_hit d s"
proof -
  have "(\<exists>a b. s = a @ b \<and> b \<noteq> [] \<and> rmatch (parse_atoms (replace_first_dot d)) b \<noteq> []) \<longleftrightarrow>
        (\<exists>m. sublist m s \<and> entry_match d m)"
  proof
    assume "\<exists>a b. s = a @ b \<and> b \<noteq> [] \<and> rmatch (parse_atoms (replace_first_dot d)) b \<noteq> []"
    then obtain a b m where "s = a @ b" "prefix m b" "entry_match d m"
      unfolding rmatch_entry_nonempty [OF d] by blast
    then have "sublist m s \<and> entry_match d m"
      by (auto simp: prefix_def sublist_def)
    then show "\<exists>m. sublist m s \<and> entry_match d m" ..
  next
    assume "\<exists>m. sublist m s \<and> entry_match d m"
    then obtain m a c where s: "s = a @ m @ c" and m: "entry_match d m"
      by (auto simp: sublist_def)
    from m ne have "m \<noteq> []" by (cases d) auto
    with s m have "s = a @ (m @ c) \<and> m @ c \<noteq> [] \<and> prefix m (m @ c) \<and> entry_match d m"
      by simp
    then show "\<exists>a b. s = a @ b \<and> b \<noteq> [] \<and> rmatch (parse_atoms (replace_first_dot d)) b \<noteq> []"
      unfolding rmatch_entry_nonempty [OF d] by blast
  qed
  then show ?thesis
    unfolding clean_iff entry_hit_def by blast
qed

subsection \<open>The deny-list check\<close>

lemma rmatch_domain_regex:
  "rmatch (domain_regex d) s \<noteq> [] \<longleftrightarrow>
     (\<exists>rest. (s = ''http://'' @ rest \<or> s = ''https://'' @ rest) \<and>
        clean (parse_atoms (replace_first_dot d)) rest)"
proof -
  have "rmatch (domain_regex d) s \<noteq> [] \<longleftrightarrow>
        (\<exists>rest \<in> set (rmatch scheme_regex s).
           rmatch (Seq (Star (Seq (NegLook (parse_atoms (replace_first_dot d))) Dot)) Eol) rest \<noteq> [])"
    unfolding domain_regex_def by (simp del: rmatch.simps add: rmatch.simps(5) [of scheme_regex])
  then show ?thesis
    unfolding rmatch_tail Bex_def rmatch_scheme by blast
qed

lemma regex_test_domain:
  assumes d: "CHR 0x5C \<notin> set d" and ne: "d \<noteq> []"
  shows "regex_test (domain_regex d) url \<longleftrightarrow> (\<exists>rest \<in> scheme_rests url. \<not> entry_hit d rest)"
  unfolding regex_test_iff rmatch_domain_regex scheme_rests_def
    not_clean_entry [OF d ne, symmetric]
  by auto

lemma blacklist_loop_iff:
  "blacklist_loop ds url \<longleftrightarrow> (\<exists>d \<in> set ds. \<not> regex_test (domain_regex d) url)"
  by (induction ds) auto

lemma blacklistedDomains_plain:
  "d \<in> set blacklistedDomains \<Longrightarrow> CHR 0x5C \<notin> set d \<and> d \<noteq> []"
  unfolding blacklistedDomains_def by auto

lemma blacklistedDomainCheck_iff:
  "blacklistedDomainCheck url \<longleftrightarrow>
     (\<exists>d \<in> set blacklistedDomains. \<forall>rest \<in> scheme_rests url. entry_hit d rest)"
  unfolding blacklistedDomainCheck_def blacklist_loop_iff
  using blacklistedDomains_plain regex_test_domain by blast

text \<open>
  What the deny-list check computes. For every URL, it blocks exactly when, for some
  entry of the deny-list, every occurrence of \<open>http://\<close> or \<open>https://\<close> in the whole
  \<open>href\<close> is followed by a text that the entry hits: a text that contains an instance of
  the entry (the entry with its first dot literal and each later dot standing for any
  character) or a line terminator. The order of the entries does not matter: any list
  with the same entries gives the same result.
\<close>

lemma blacklistedDomainCheck_matches_whole_href:
  "(blacklistedDomainCheck url \<longleftrightarrow>
      (\<exists>d \<in> set blacklistedDomains. \<forall>rest \<in> scheme_rests url. entry_hit d rest))
   \<and> (\<forall>ds. set ds = set blacklistedDomains \<longrightarrow>
         blacklist_loop ds url = blacklistedDomainCheck url)"
proof -
  have "blacklist_loop ds url = blacklistedDomainCheck url"
    if "set ds = set blacklistedDomains" for ds
    using that by (simp add: blacklistedDomainCheck_def blacklist_loop_iff)
  then show ?thesis using blacklistedDomainCheck_iff by blast
qed

text \<open>
  At \<open>https://www.dropbox.com/anything\<close> the only text after a scheme contains the entry
  \<open>dropbox.com\<close>, and the check blocks, also with the entries in reverse order; at
  \<open>https://example.com/page\<close> no entry hits, and the check does not block.
\<close>

lemma blacklistedDomainCheck_matches_whole_href_sample:
  "''www.dropbox.com/anything'' \<in> scheme_rests ''https://www.dropbox.com/anything''
   \<and> blacklistedDomainCheck ''https://www.dropbox.com/anything''
   \<and> (\<exists>d \<in> set blacklistedDomains.
         \<forall>rest \<in> scheme_rests ''https://www.dropbox.com/anything''. entry_hit d rest)
   \<and> \<not> blacklistedDomainCheck ''https://example.com/page''
   \<and> \<not> (\<exists>d \<in> set blacklistedDomains.
           \<forall>rest \<in> scheme_rests ''https://example.com/page''. entry_hit d rest)
   \<and> set (rev blacklistedDomains) = set blacklistedDomains
   \<and> blacklist_loop (rev blacklistedDomains) ''https://www.dropbox.com/anything''"
proof -
  have a: "blacklistedDomainCheck ''https://www.dropbox.com/anything''" by code_simp
  have b: "\<not> blacklistedDomainCheck ''https://example.com/page''" by code_simp
  have c: "''www.dropbox.com/anything'' \<in> scheme_rests ''https://www.dropbox.com/anything''"
    unfolding scheme_rests_def by (auto intro: exI [of _ "[]"])
  show ?thesis
    using a b c
      blacklistedDomainCheck_matches_whole_href [of "''https://www.dropbox.com/anything''"]
      blacklistedDomainCheck_matches_whole_href [of "''https://example.com/page''"]
    by (simp only: set_rev) blast
qed

text \<open>
  C1 at \<open>https://dropbox.com/?u=http://b.com\<close>. The origin of this URL is the deny-list
  domain \<open>dropbox.com\<close>, as that of \<open>https://dropbox.com/\<close>, which the check blocks; the
  claim, and the doc comment of the check (true if the current domain is blacklisted),
  have it blocked. The check does not block it: the regular expression is not anchored
  at the start of the URL and matches at the second \<open>http://\<close>, which no entry follows.
  In the other direction the check blocks URLs whose origin is in no deny-list domain:
  \<open>https://example.com/dropbox.com\<close>, for its path, while \<open>https://example.com/page\<close> of
  the same origin is not blocked; and \<open>https://ani.gamerxcomytw/\<close>, since \<open>replace\<close>
  escapes the first dot of \<open>ani.gamer.com.tw\<close> only.
\<close>

theorem blacklistedDomainCheck_not_by_origin:
  "blacklistedDomainCheck (''https://example.com'' @ ''/dropbox.com'')
   \<and> \<not> blacklistedDomainCheck (''https://example.com'' @ ''/page'')
   \<and> \<not> blacklistedDomainCheck (''https://dropbox.com'' @ ''/?u=http://b.com'')
   \<and> blacklistedDomainCheck (''https://dropbox.com'' @ ''/'')
   \<and> blacklistedDomainCheck ''https://ani.gamerxcomytw/''"
  by code_simp

subsection \<open>The suffix check and the gate\<close>

lemma regex_test_suffix: "regex_test (Seq (lit w) Eol) s \<longleftrightarrow> suffix w s"
proof -
  have "rmatch (Seq (lit w) Eol) b \<noteq> [] \<longleftrightarrow> b = w" for b
  proof -
    have "rmatch (Seq (lit w) Eol) b \<noteq> [] \<longleftrightarrow> (\<exists>t. t \<in> set (rmatch (Seq (lit w) Eol) b))"
      by (cases "rmatch (Seq (lit w) Eol) b") auto
    also have "\<dots> \<longleftrightarrow> b = w"
      unfolding in_rmatch_Seq in_rmatch_lit by auto
    finally show ?thesis .
  qed
  then show ?thesis
    unfolding regex_test_iff suffix_def by auto
qed

lemma suffixCheck_iff:
  "suffixCheck loc \<longleftrightarrow> \<not> (suffix ''.xml'' (pathname loc) \<or> suffix ''.pdf'' (pathname loc))"
  by (simp add: suffixCheck_def prohibitedTypes_def regex_test_suffix del: lit.simps)

text \<open>
  For a document that has a top-level element (with a node name), the gate returns
  \<open>true\<close> exactly when the four conditions hold.
\<close>

lemma shouldInjectProvider_iff:
  assumes "documentElement doc = Some nodeName" "nodeName \<noteq> []"
  shows "shouldInjectProvider doc loc = Inr True \<longleftrightarrow>
     (doctype doc = None \<or> doctype doc = Some ''html'')
     \<and> toLowerCase nodeName = ''html''
     \<and> \<not> (suffix ''.xml'' (pathname loc) \<or> suffix ''.pdf'' (pathname loc))
     \<and> \<not> blacklistedDomainCheck (href loc)"
  using assms
  by (auto simp: shouldInjectProvider_def doctypeCheck_def documentElementCheck_def
      suffixCheck_iff split: option.splits)

text \<open>
  C6 at a document without a top-level element (\<open>document.documentElement\<close> is \<open>null\<close>),
  without a document type, at \<open>https://example.com/page\<close>: the four conditions of the
  claim hold (there is no document type, no top-level element to have another tag name,
  the path has no prohibited suffix, the deny-list check does not match), and the gate
  raises a \<open>TypeError\<close> where the claim has it return \<open>true\<close>.
\<close>

theorem shouldInjectProvider_without_documentElement:
  "doctype \<lparr>doctype = None, documentElement = None\<rparr> = None
   \<and> documentElement \<lparr>doctype = None, documentElement = None\<rparr> = None
   \<and> \<not> suffix ''.xml'' ''/page'' \<and> \<not> suffix ''.pdf'' ''/page''
   \<and> \<not> blacklistedDomainCheck ''https://example.com/page''
   \<and> shouldInjectProvider \<lparr>doctype = None, documentElement = None\<rparr>
        \<lparr>href = ''https://example.com/page'', pathname = ''/page'', hostname = ''example.com''\<rparr>
      = Inl TypeError"
proof -
  have "\<not> blacklistedDomainCheck ''https://example.com/page''" by code_simp
  moreover have "\<not> suffix ''.xml'' ''/page''" "\<not> suffix ''.pdf'' ''/page''"
    by (simp_all add: suffix_def)
  ultimately show ?thesis
    by (simp add: shouldInjectProvider_def doctypeCheck_def documentElementCheck_def
        suffixCheck_iff)
qed

text \<open>
  C8. For every location whose path ends in \<open>.xml\<close> or \<open>.pdf\<close>, the gate returns \<open>false\<close>,
  whatever the document and the rest of the location are: the suffix check reads
  \<open>pathname\<close> only, which has no query string, and the checks after it are not evaluated.
\<close>

theorem prohibited_suffix_not_injected:
  "suffix ''.xml'' (pathname loc) \<or> suffix ''.pdf'' (pathname loc) \<Longrightarrow>
   shouldInjectProvider doc loc = Inr False"
  by (simp add: shouldInjectProvider_def suffixCheck_iff)

theorem prohibited_suffix_not_injected_witness:
  "(suffix ''.xml'' ''/report.pdf'' \<or> suffix ''.pdf'' ''/report.pdf'')
   \<and> shouldInjectProvider \<lparr>doctype = Some ''html'', documentElement = Some ''HTML''\<rparr>
       \<lparr>href = ''https://example.com/report.pdf?download=1'', pathname = ''/report.pdf'',
        hostname = ''example.com''\<rparr> = Inr False"
proof -
  have h: "suffix ''.xml'' ''/report.pdf'' \<or> suffix ''.pdf'' ''/report.pdf''"
    by (simp add: suffix_def)
  show ?thesis
    using h prohibited_suffix_not_injected
      [of "\<lparr>href = ''https://example.com/report.pdf?download=1'', pathname = ''/report.pdf'',
            hostname = ''example.com''\<rparr>"
          "\<lparr>doctype = Some ''html'', documentElement = Some ''HTML''\<rparr>"]
    by simp
qed

lemma no_scheme_no_rests:
  assumes "\<not> sublist ''http://'' url" "\<not> sublist ''https://'' url"
  shows "scheme_rests url = {}"
  using assms unfolding scheme_rests_def sublist_def by auto

text \<open>
  For every \<open>href\<close> that contains neither \<open>http://\<close> nor \<open>https://\<close>, the regular
  expression of the first deny-list entry does not match and the deny-list check reports
  the domain as blacklisted; the gate returns \<open>false\<close> for every document that has a
  top-level element, and the script injects nothing.
\<close>

lemma no_http_scheme_not_injected:
  assumes "\<not> sublist ''http://'' (href loc)" "\<not> sublist ''https://'' (href loc)"
  shows "\<not> regex_test (domain_regex (blacklistedDomains ! 0)) (href loc)
     \<and> blacklistedDomainCheck (href loc)
     \<and> shouldInjectProvider doc loc \<noteq> Inr True
     \<and> (documentElement doc \<noteq> None \<longrightarrow> shouldInjectProvider doc loc = Inr False)
     \<and> contentscript doc loc \<in> {Inr [], Inl TypeError}"
proof -
  have e: "scheme_rests (href loc) = {}"
    using assms by (rule no_scheme_no_rests)
  have "blacklistedDomains ! 0 \<in> set blacklistedDomains"
    by (simp add: blacklistedDomains_def)
  then have first: "\<not> regex_test (domain_regex (blacklistedDomains ! 0)) (href loc)"
    using blacklistedDomains_plain regex_test_domain e by blast
  have b: "blacklistedDomainCheck (href loc)"
    unfolding blacklistedDomainCheck_iff e by (auto simp: blacklistedDomains_def)
  from b have s: "shouldInjectProvider doc loc \<noteq> Inr True"
    "documentElement doc \<noteq> None \<longrightarrow> shouldInjectProvider doc loc = Inr False"
    "contentscript doc loc \<in> {Inr [], Inl TypeError}"
    by (auto simp: contentscript_def shouldInjectProvider_def documentElementCheck_def
        split: option.splits)
  with first b show ?thesis by blast
qed

lemma no_http_scheme_not_injected_sample:
  "\<not> sublist ''http://'' ''about:blank'' \<and> \<not> sublist ''https://'' ''about:blank''
   \<and> blacklistedDomainCheck ''about:blank''
   \<and> shouldInjectProvider \<lparr>doctype = Some ''html'', documentElement = Some ''HTML''\<rparr>
        \<lparr>href = ''about:blank'', pathname = ''blank'', hostname = []\<rparr> = Inr False"
proof -
  have h: "\<not> sublist ''http://'' ''about:blank''" "\<not> sublist ''https://'' ''about:blank''"
    by code_simp+
  show ?thesis
    using h no_http_scheme_not_injected
      [of "\<lparr>href = ''about:blank'', pathname = ''blank'', hostname = []\<rparr>"
          "\<lparr>doctype = Some ''html'', documentElement = Some ''HTML''\<rparr>"]
    by simp
qed

text \<open>
  C10 at a document without a top-level element (\<open>document.documentElement\<close> is \<open>null\<close>)
  and without a document type, at \<open>about:blank\<close>, which has no \<open>http://\<close> or \<open>https://\<close>:
  the claim has the gate return \<open>false\<close>; it does not return, it raises a \<open>TypeError\<close>
  in \<open>documentElementCheck\<close>, before the deny-list check is evaluated.
\<close>

theorem no_http_scheme_raises:
  "\<not> sublist ''http://'' ''about:blank'' \<and> \<not> sublist ''https://'' ''about:blank''
   \<and> shouldInjectProvider \<lparr>doctype = None, documentElement = None\<rparr>
        \<lparr>href = ''about:blank'', pathname = ''blank'', hostname = []\<rparr> = Inl TypeError"
proof -
  have "\<not> sublist ''http://'' ''about:blank''" "\<not> sublist ''https://'' ''about:blank''"
    by code_simp+
  then show ?thesis
    by (simp add: shouldInjectProvider_def doctypeCheck_def documentElementCheck_def
        suffixCheck_iff suffix_def)
qed

subsection \<open>The redirect target\<close>

lemma char_eq_nat: "c = d \<longleftrightarrow> (of_char c :: nat) = of_char d"
  by simp

lemma hex_value_hex_digit: "n < 16 \<Longrightarrow> hex_value (hex_digit n) = Some n"
  by (simp add: hex_value_def hex_digit_def)

lemma percent_decode_percent:
  "b < 256 \<Longrightarrow> percent_decode (percent b @ t) = b # percent_decode t"
proof -
  assume b: "b < 256"
  then have "b div 16 < 16" "b mod 16 < 16" by auto
  then have "hex_value (hex_digit (b div 16)) = Some (b div 16)"
    "hex_value (hex_digit (b mod 16)) = Some (b mod 16)"
    by (simp_all only: hex_value_hex_digit)
  then show ?thesis by (simp add: percent_def)
qed

lemma unreserved_not_percent: "unreserved c \<Longrightarrow> c \<noteq> CHR ''%''"
  by (auto simp: unreserved_def)

lemma utf8_bytes: "b \<in> set (utf8 c) \<Longrightarrow> b < 256"
proof -
  assume b: "b \<in> set (utf8 c)"
  define n where "n = (of_char c :: nat)"
  have "n < 256" by (simp add: n_def)
  then have "n div 64 < 4" "n mod 64 < 64" by auto
  with b \<open>n < 256\<close> show "b < 256"
    by (auto simp: utf8_def Let_def n_def [symmetric] split: if_splits)
qed

lemma percent_decode_map_percent:
  "\<forall>b \<in> set bs. b < 256 \<Longrightarrow>
   percent_decode (concat (map percent bs) @ t) = bs @ percent_decode t"
  by (induction bs) (simp_all add: percent_decode_percent)

lemma percent_decode_escape_char:
  "percent_decode (escape_char c @ t) = utf8 c @ percent_decode t"
proof (cases "unreserved c")
  case True
  then have "(of_char c :: nat) < 128" by (auto simp: unreserved_def Let_def)
  with True show ?thesis
    by (simp add: escape_char_def unreserved_not_percent utf8_def)
next
  case False
  then show ?thesis
    using percent_decode_map_percent [of "utf8 c" t] utf8_bytes [of _ c]
    by (simp add: escape_char_def)
qed

lemma percent_decode_escape:
  "percent_decode (escape s @ t) = concat (map utf8 s) @ percent_decode t"
  by (induction s) (simp_all add: escape_def percent_decode_escape_char)

lemma utf8_decode_utf8: "utf8_decode (utf8 c @ bs) = c # utf8_decode bs"
proof (cases "(of_char c :: nat) < 128")
  case True
  then show ?thesis by (cases bs) (simp_all add: utf8_def)
next
  case False
  have lt: "(of_char c :: nat) < 256" by simp
  define n where "n = (of_char c :: nat)"
  with False lt have n: "128 \<le> n" "n < 256" by simp_all
  then have "192 \<le> 192 + n div 64" "192 + n div 64 < 196"
    "128 \<le> 128 + n mod 64" "128 + n mod 64 < 192" by auto
  moreover have "char_of (n div 64 * 64 + n mod 64) = c"
    by (simp add: n_def)
  ultimately show ?thesis using False
    by (simp add: utf8_def n_def [symmetric])
qed

lemma utf8_decode_concat: "utf8_decode (concat (map utf8 s)) = s"
  by (induction s) (simp_all add: utf8_decode_utf8)

lemma unescape_escape: "unescape (escape s) = s"
  using percent_decode_escape [of s "[]"] by (simp add: unescape_def utf8_decode_concat)

lemma hex_digit_plain: "n < 16 \<Longrightarrow> hex_digit n \<noteq> CHR ''&'' \<and> hex_digit n \<noteq> CHR ''=''"
  by (simp add: hex_digit_def char_eq_nat [of "char_of _"])

lemma percent_plain:
  assumes "b < 256" "x \<in> set (percent b)"
  shows "x \<noteq> CHR ''&'' \<and> x \<noteq> CHR ''=''"
proof -
  from assms(1) have "b div 16 < 16" "b mod 16 < 16" by auto
  then have "hex_digit (b div 16) \<noteq> CHR ''&'' \<and> hex_digit (b div 16) \<noteq> CHR ''=''"
    "hex_digit (b mod 16) \<noteq> CHR ''&'' \<and> hex_digit (b mod 16) \<noteq> CHR ''=''"
    by (simp_all add: hex_digit_plain)
  with assms(2) show ?thesis by (auto simp: percent_def)
qed

lemma escape_char_plain:
  assumes "x \<in> set (escape_char c)"
  shows "x \<noteq> CHR ''&'' \<and> x \<noteq> CHR ''=''"
proof (cases "unreserved c")
  case True
  with assms have "x = c" by (simp add: escape_char_def)
  with True show ?thesis by (auto simp: unreserved_def)
next
  case False
  with assms obtain b where "b \<in> set (utf8 c)" "x \<in> set (percent b)"
    by (auto simp: escape_char_def)
  then show ?thesis using percent_plain utf8_bytes by blast
qed

lemma escape_plain: "x \<in> set (escape s) \<Longrightarrow> x \<noteq> CHR ''&'' \<and> x \<noteq> CHR ''=''"
  using escape_char_plain by (auto simp: escape_def)

lemma split_at_plain: "sep \<notin> set w \<Longrightarrow> split_at sep (w @ sep # r) = w # split_at sep r"
  by (induction w) auto

lemma split_at_last: "sep \<notin> set w \<Longrightarrow> split_at sep w = [w]"
  by (induction w) auto

lemma split_at_join_amp:
  "xs \<noteq> [] \<Longrightarrow> \<forall>x \<in> set xs. CHR ''&'' \<notin> set x \<Longrightarrow> split_at CHR ''&'' (join_amp xs) = xs"
proof (induction xs rule: join_amp.induct)
  case 1
  then show ?case by simp
next
  case (2 x)
  then show ?case by (simp add: split_at_last)
next
  case (3 x y ys)
  then show ?case by (simp add: split_at_plain)
qed

lemma parse_pair_escape: "parse_pair (escape k @ CHR ''='' # escape v) = (k, v)"
proof -
  have k: "\<forall>x \<in> set (escape k). x \<noteq> CHR ''=''" using escape_plain by blast
  then have "takeWhile (\<lambda>c. c \<noteq> CHR ''='') (escape k @ CHR ''='' # escape v) = escape k"
    by simp
  moreover from k have
    "dropWhile (\<lambda>c. c \<noteq> CHR ''='') (escape k @ CHR ''='' # escape v) = CHR ''='' # escape v"
    by simp
  ultimately show ?thesis by (simp add: parse_pair_def unescape_escape)
qed

lemma parse_query_stringify: "obj \<noteq> [] \<Longrightarrow> parse_query (stringify obj) = obj"
proof -
  assume ne: "obj \<noteq> []"
  let ?xs = "map (\<lambda>(k, v). escape k @ CHR ''='' # escape v) obj"
  have "\<forall>x \<in> set ?xs. CHR ''&'' \<notin> set x"
    using escape_plain by fastforce
  with ne have "split_at CHR ''&'' (join_amp ?xs) = ?xs"
    by (simp add: split_at_join_amp)
  then have "parse_query (stringify obj) = map parse_pair ?xs"
    by (simp add: parse_query_def stringify_def)
  also have "\<dots> = obj"
    by (induction obj) (auto simp: parse_pair_escape)
  finally show ?thesis .
qed

text \<open>
  C3. The value that \<open>redirectToPhishingWarning\<close> assigns to \<open>window.location.href\<close> is the
  URL of the extension's file \<open>phishing.html\<close>, a \<open>#\<close>, and the two parameters
  \<open>hostname\<close> and \<open>href\<close> of the current location in query-string form, each value
  escaped; reading the text after the \<open>#\<close> back as a query string gives the hostname
  and the href of the current document.
\<close>

theorem redirect_target_encodes_location:
  "redirectToPhishingWarning getURL loc =
     getURL ''phishing.html'' @ ''#hostname='' @ escape (hostname loc)
       @ ''&href='' @ escape (href loc)
   \<and> parse_query (drop (Suc (length (getURL ''phishing.html'')))
        (redirectToPhishingWarning getURL loc)) =
     [(''hostname'', hostname loc), (''href'', href loc)]"
proof -
  have "parse_query (stringify [(''hostname'', hostname loc), (''href'', href loc)]) =
        [(''hostname'', hostname loc), (''href'', href loc)]"
    by (rule parse_query_stringify) simp
  moreover have "escape ''hostname'' = ''hostname''" "escape ''href'' = ''href''"
    by (simp_all add: escape_def escape_char_def unreserved_def)
  ultimately show ?thesis
    by (simp add: redirectToPhishingWarning_def Let_def stringify_def)
qed

subsection \<open>Setting up the streams\<close>

lemma setupStreams_result: "setupStreams = Inr
  \<lparr>channels = [(PageMux, [''onboarding'', ''provider'', ''publicConfig'', ''cap'']),
              (ExtensionMux, [''provider'', ''publicConfig'', ''cap'', ''phishing''])],
   pipes = [([Mux PageMux, PageStream, Mux PageMux],
             LogStreamDisconnectWarning ''MetaMask Inpage Multiplex''),
            ([Mux ExtensionMux, ExtensionStream, Mux ExtensionMux],
             LogStreamDisconnectWarning ''MetaMask Background Multiplex''),
            ([Channel PageMux ''onboarding'', AddCurrentTab], LogOnboardingFailure),
            ([Channel PageMux ''provider'', Channel ExtensionMux ''provider'',
              Channel PageMux ''provider''],
             LogStreamDisconnectWarning (muxed_traffic_label ''provider'')),
            ([Channel PageMux ''publicConfig'', Channel ExtensionMux ''publicConfig'',
              Channel PageMux ''publicConfig''],
             LogStreamDisconnectWarning (muxed_traffic_label ''publicConfig'')),
            ([Channel PageMux ''cap'', Channel ExtensionMux ''cap'', Channel PageMux ''cap''],
             LogStreamDisconnectWarning (muxed_traffic_label ''cap''))],
   once_listeners = [(Channel ExtensionMux ''phishing'', ''data'', RedirectToPhishingWarning)],
   trace =
     [NewLocalMessageDuplexStream ''contentscript'' ''inpage'',
      RuntimeConnect ''contentscript'',
      NewPortStream,
      NewObjectMultiplex PageMux,
      SetMaxListeners PageMux 25,
      NewObjectMultiplex ExtensionMux,
      SetMaxListeners ExtensionMux 25,
      Pump [Mux PageMux, PageStream, Mux PageMux]
        (LogStreamDisconnectWarning ''MetaMask Inpage Multiplex''),
      Pump [Mux ExtensionMux, ExtensionStream, Mux ExtensionMux]
        (LogStreamDisconnectWarning ''MetaMask Background Multiplex''),
      CreateStream PageMux ''onboarding'',
      NewWritable,
      Pump [Channel PageMux ''onboarding'', AddCurrentTab] LogOnboardingFailure,
      CreateStream PageMux ''provider'',
      CreateStream ExtensionMux ''provider'',
      Pump [Channel PageMux ''provider'', Channel ExtensionMux ''provider'',
            Channel PageMux ''provider'']
        (LogStreamDisconnectWarning (muxed_traffic_label ''provider'')),
      CreateStream PageMux ''publicConfig'',
      CreateStream ExtensionMux ''publicConfig'',
      Pump [Channel PageMux ''publicConfig'', Channel ExtensionMux ''publicConfig'',
            Channel PageMux ''publicConfig'']
        (LogStreamDisconnectWarning (muxed_traffic_label ''publicConfig'')),
      CreateStream PageMux ''cap'',
      CreateStream ExtensionMux ''cap'',
      Pump [Channel PageMux ''cap'', Channel ExtensionMux ''cap'', Channel PageMux ''cap'']
        (LogStreamDisconnectWarning (muxed_traffic_label ''cap'')),
      CreateStream ExtensionMux ''phishing'',
      Once (Channel ExtensionMux ''phishing'') ''data'' RedirectToPhishingWarning]\<rparr>"
  by (simp add: setupStreams_def fresh_def call_def newObjectMultiplex_def createStream_def
      pump_def once_def forwardTrafficBetweenMuxers_def)

text \<open>
  C7. \<open>setupStreams\<close> raises nothing, and its calls are, in this order: the two
  transports; the page-side multiplexer, then the extension-side multiplexer; the
  page-side multiplexer piped with the page transport, then the extension-side one with
  the extension transport; the onboarding sink (its channel, its \<open>Writable\<close>, their
  pipeline); the forwarder of \<open>provider\<close>, of \<open>publicConfig\<close> and of \<open>cap\<close> (the channel
  on each side, then their pipeline); the phishing sink (its channel, its listener). In
  particular both multiplexers are created before a forwarder creates any of its
  channels.
\<close>

theorem setupStreams_order:
  "map_sum id trace setupStreams = Inr
     [NewLocalMessageDuplexStream ''contentscript'' ''inpage'',
      RuntimeConnect ''contentscript'',
      NewPortStream,
      NewObjectMultiplex PageMux,
      SetMaxListeners PageMux 25,
      NewObjectMultiplex ExtensionMux,
      SetMaxListeners ExtensionMux 25,
      Pump [Mux PageMux, PageStream, Mux PageMux]
        (LogStreamDisconnectWarning ''MetaMask Inpage Multiplex''),
      Pump [Mux ExtensionMux, ExtensionStream, Mux ExtensionMux]
        (LogStreamDisconnectWarning ''MetaMask Background Multiplex''),
      CreateStream PageMux ''onboarding'',
      NewWritable,
      Pump [Channel PageMux ''onboarding'', AddCurrentTab] LogOnboardingFailure,
      CreateStream PageMux ''provider'',
      CreateStream ExtensionMux ''provider'',
      Pump [Channel PageMux ''provider'', Channel ExtensionMux ''provider'',
            Channel PageMux ''provider'']
        (LogStreamDisconnectWarning (muxed_traffic_label ''provider'')),
      CreateStream PageMux ''publicConfig'',
      CreateStream ExtensionMux ''publicConfig'',
      Pump [Channel PageMux ''publicConfig'', Channel ExtensionMux ''publicConfig'',
            Channel PageMux ''publicConfig'']
        (LogStreamDisconnectWarning (muxed_traffic_label ''publicConfig'')),
      CreateStream PageMux ''cap'',
      CreateStream ExtensionMux ''cap'',
      Pump [Channel PageMux ''cap'', Channel ExtensionMux ''cap'', Channel PageMux ''cap'']
        (LogStreamDisconnectWarning (muxed_traffic_label ''cap'')),
      CreateStream ExtensionMux ''phishing'',
      Once (Channel ExtensionMux ''phishing'') ''data'' RedirectToPhishingWarning]
   \<and> map_sum id (\<lambda>b. list_all (\<lambda>name.
          precedes (NewObjectMultiplex PageMux) (CreateStream PageMux name) (trace b)
          \<and> precedes (NewObjectMultiplex ExtensionMux) (CreateStream PageMux name) (trace b)
          \<and> precedes (NewObjectMultiplex PageMux) (CreateStream ExtensionMux name) (trace b)
          \<and> precedes (NewObjectMultiplex ExtensionMux) (CreateStream ExtensionMux name) (trace b))
        [''provider'', ''publicConfig'', ''cap'']) setupStreams = Inr True"
  unfolding setupStreams_result by (simp add: precedes_def)

text \<open>
  C2, as the script has it. The onboarding sink is bound to the channel \<open>onboarding\<close> of
  the page-side multiplexer: the one pipeline into the \<open>Writable\<close> of the sink reads
  from that channel, the channel is one of the multiplexer that is piped with the page
  transport, and the extension-side multiplexer has no channel of that name.
\<close>

theorem onboarding_sink_on_page_multiplexer:
  "map_sum id (\<lambda>b. (pipes_with AddCurrentTab b, pipes_with PageStream b,
        ''onboarding'' \<in> set (channels_of b PageMux),
        ''onboarding'' \<in> set (channels_of b ExtensionMux))) setupStreams =
   Inr ([([Channel PageMux ''onboarding'', AddCurrentTab], LogOnboardingFailure)],
        [([Mux PageMux, PageStream, Mux PageMux],
          LogStreamDisconnectWarning ''MetaMask Inpage Multiplex'')],
        True, False)"
  unfolding setupStreams_result by (simp add: pipes_with_def channels_of_def)

text \<open>
  C2 as stated fails: the extension-side multiplexer has no channel \<open>onboarding\<close>, no
  pipeline reads from such a channel, and the pipeline into the sink starts at the
  channel of the page-side multiplexer.
\<close>

theorem onboarding_sink_not_on_extension_multiplexer:
  "map_sum id (\<lambda>b. (channels_of b ExtensionMux,
        pipes_with (Channel ExtensionMux ''onboarding'') b,
        map (hd \<circ> fst) (pipes_with AddCurrentTab b))) setupStreams =
   Inr ([''provider'', ''publicConfig'', ''cap'', ''phishing''], [],
        [Channel PageMux ''onboarding''])"
  unfolding setupStreams_result by (simp add: pipes_with_def channels_of_def)

subsection \<open>The onboarding sink and its pipeline\<close>









subsection \<open>The phishing sink\<close>

lemma emit_no_listener: "listeners r = [] \<Longrightarrow> emit getURL loc s ev m r = r"
  by (simp add: emit_def)

lemma receive_no_listener: "listeners r = [] \<Longrightarrow> receive getURL loc s ms r = r"
  by (induction ms) (simp_all add: emit_no_listener)

text \<open>
  C5. After \<open>setupStreams\<close>, for every sequence of two or more messages on the channel
  \<open>phishing\<close> of the extension-side multiplexer, \<open>redirectToPhishingWarning\<close> is called
  exactly once, with the first message; it assigns the redirect target to
  \<open>window.location.href\<close> once, and no listener is left for the later messages.
\<close>

theorem phishing_sink_one_shot:
  "map_sum id
     (\<lambda>b. let r = receive getURL loc (Channel ExtensionMux ''phishing'') (m # m' # ms)
                    (runtime_of b)
           in (calls r, assigned_href r, listeners r))
     setupStreams =
   Inr ([(RedirectToPhishingWarning, m)], [redirectToPhishingWarning getURL loc], [])"
proof -
  let ?r0 = "\<lparr>listeners = [(Channel ExtensionMux ''phishing'', ''data'', RedirectToPhishingWarning)],
              calls = [], console_log = [], assigned_href = []\<rparr>"
  let ?r1 = "emit getURL loc (Channel ExtensionMux ''phishing'') ''data'' m ?r0"
  have r1: "?r1 = \<lparr>listeners = [], calls = [(RedirectToPhishingWarning, m)],
              console_log = [''MetaMask - routing to Phishing Warning component''],
              assigned_href = [redirectToPhishingWarning getURL loc]\<rparr>"
    by (simp add: emit_def)
  have "receive getURL loc (Channel ExtensionMux ''phishing'') (m # m' # ms) ?r0 =
        receive getURL loc (Channel ExtensionMux ''phishing'') (m' # ms) ?r1"
    by simp
  also have "\<dots> = ?r1"
    by (rule receive_no_listener) (simp add: r1)
  finally show ?thesis
    unfolding setupStreams_result by (simp add: runtime_of_def r1 Let_def)
qed

subsection \<open>A forwarder pairing\<close>

lemma forward_closed:
  "channelA p \<noteq> ChannelOpen \<or> channelB p \<noteq> ChannelOpen \<Longrightarrow> forward p ev = p"
  by (cases ev) auto

lemma foldl_forward_closed:
  "channelA p \<noteq> ChannelOpen \<or> channelB p \<noteq> ChannelOpen \<Longrightarrow> foldl forward p evs = p"
  by (induction evs) (simp_all add: forward_closed)

lemma foldl_forward_frames:
  "channelA p = ChannelOpen \<Longrightarrow> channelB p = ChannelOpen \<Longrightarrow>
   list_all (\<lambda>ev. \<not> terminal ev) evs \<Longrightarrow>
   channelA (foldl forward p evs) = ChannelOpen \<and> channelB (foldl forward p evs) = ChannelOpen
   \<and> reported (foldl forward p evs) = reported p"
proof (induction evs arbitrary: p)
  case Nil
  then show ?case by simp
next
  case (Cons ev evs)
  then obtain s x where ev: "ev = Frame s x" by (cases ev) auto
  with Cons.prems have "channelA (forward p ev) = ChannelOpen"
    "channelB (forward p ev) = ChannelOpen" "reported (forward p ev) = reported p"
    by (cases s; simp)+
  with Cons.IH [of "forward p ev"] Cons.prems(3) show ?case by simp
qed

text \<open>
  C9. For every sequence of events on the two channels of a pairing in which a channel
  ends or fails, let \<open>ev\<close> be the first such event, after the frames \<open>before\<close> and before
  the events \<open>after\<close>. Then the handler is called exactly once, with the error of \<open>ev\<close>
  or with none when \<open>ev\<close> is a graceful end; both channels are in the state that \<open>ev\<close>
  brings (ended, or failed with that error); and exactly one warning is written. The
  forwarder raises nothing: every event is taken.
\<close>

theorem forwarder_reports_once:
  assumes "list_all (\<lambda>ev. \<not> terminal ev) before" "terminal ev"
  shows "reported (foldl forward connected (before @ ev # after)) =
           [case ev of ChannelErrors s e \<Rightarrow> Some e | _ \<Rightarrow> None]
     \<and> channelA (foldl forward connected (before @ ev # after)) =
           (case ev of ChannelErrors s e \<Rightarrow> ChannelFailed e | _ \<Rightarrow> ChannelEnded)
     \<and> channelB (foldl forward connected (before @ ev # after)) =
         channelA (foldl forward connected (before @ ev # after))
     \<and> length (forwarder_warnings channelName (before @ ev # after)) = 1"
proof -
  let ?p = "foldl forward connected before"
  have p: "channelA ?p = ChannelOpen" "channelB ?p = ChannelOpen" "reported ?p = []"
    using foldl_forward_frames [of connected before] assms(1) by (simp_all add: connected_def)
  let ?q = "forward ?p ev"
  have q: "reported ?q = [case ev of ChannelErrors s e \<Rightarrow> Some e | _ \<Rightarrow> None]"
    "channelA ?q = (case ev of ChannelErrors s e \<Rightarrow> ChannelFailed e | _ \<Rightarrow> ChannelEnded)"
    "channelB ?q = channelA ?q"
    using p assms(2) by (cases ev; simp)+
  then have "channelA ?q \<noteq> ChannelOpen" using assms(2) by (cases ev) auto
  then have "foldl forward ?q after = ?q" by (simp add: foldl_forward_closed)
  then have "foldl forward connected (before @ ev # after) = ?q" by simp
  with q show ?thesis by (simp add: forwarder_warnings_def)
qed

text \<open>
  Two frames, then side A ends; side B's own end and a late error follow and change
  nothing.
\<close>

theorem forwarder_reports_once_witness:
  "list_all (\<lambda>ev. \<not> terminal ev) [Frame SideA (JStr ''a''), Frame SideB (JStr ''b'')]
   \<and> terminal (ChannelEnds SideA)
   \<and> reported (foldl forward connected
        ([Frame SideA (JStr ''a''), Frame SideB (JStr ''b'')] @ ChannelEnds SideA #
         [ChannelEnds SideB, ChannelErrors SideB ''late''])) = [None]
   \<and> channelB (foldl forward connected
        ([Frame SideA (JStr ''a''), Frame SideB (JStr ''b'')] @ ChannelEnds SideA #
         [ChannelEnds SideB, ChannelErrors SideB ''late''])) = ChannelEnded"
proof -
  have h: "list_all (\<lambda>ev. \<not> terminal ev) [Frame SideA (JStr ''a''), Frame SideB (JStr ''b'')]"
    "terminal (ChannelEnds SideA)" by simp_all
  show ?thesis
    using h forwarder_reports_once
      [OF h, of "[ChannelEnds SideB, ChannelErrors SideB ''late'']" "''provider''"]
    by simp
qed

subsection \<open>The gate on sample documents\<close>

text \<open>
  An HTML document at \<open>https://example.com/page\<close> is injected into; a document whose
  top-level element is \<open>svg\<close> is not; no document at \<open>https://www.dropbox.com/anything\<close>
  with a top-level element is.
\<close>

lemma shouldInjectProvider_samples:
  "shouldInjectProvider \<lparr>doctype = Some ''html'', documentElement = Some ''HTML''\<rparr>
     \<lparr>href = ''https://example.com/page'', pathname = ''/page'', hostname = ''example.com''\<rparr>
     = Inr True"
  "shouldInjectProvider \<lparr>doctype = None, documentElement = Some ''svg''\<rparr>
     \<lparr>href = ''https://example.com/page'', pathname = ''/page'', hostname = ''example.com''\<rparr>
     = Inr False"
  "shouldInjectProvider \<lparr>doctype = Some ''html'', documentElement = Some ''HTML''\<rparr>
     \<lparr>href = ''https://www.dropbox.com/anything'', pathname = ''/anything'',
      hostname = ''www.dropbox.com''\<rparr>
     = Inr False"
  by code_simp+

end
